theory Spec2Isabelle
  imports Main "HOL-Library.List_Lexorder"
begin

section \<open>Strings\<close>

text \<open>
  A Python \<open>str\<close> is a sequence of Unicode code points; it is modelled as a list of
  natural numbers, one per code point. Lists of code points are ordered
  lexicographically (\<open>HOL-Library.List_Lexorder\<close>), which is the order Python's
  \<open>sorted\<close> uses on strings.
\<close>

type_synonym ustr = "nat list"

section \<open>The dedup state store (app/state.py)\<close>

subsection \<open>Data\<close>

text \<open>
  The JSON document \<open>{"version": 1, "seen": [...]}\<close>. Either key may be missing from a
  document found on disk; \<open>data.get("seen", [])\<close> supplies the default.
\<close>

record doc =
  version :: "int option"
  seen :: "ustr list option"

text \<open>
  What a file holds: the complete serialisation of a document, or the first \<open>n\<close>
  characters of one whose writing was interrupted (which \<open>json.load\<close> rejects).
\<close>

datatype content = Complete doc | Partial doc nat

text \<open>
  The world the store acts on: the state file at \<open>self.path\<close>, the temporary file
  \<open>path.with_suffix(".json.tmp")\<close>, the sentinel \<open>state.lock\<close> (the three are distinct
  files of one existing directory), the clock \<open>time.time()\<close> counted in poll
  intervals of 0.1 s, and the instant at which another process that holds the lock
  will remove the sentinel (\<open>None\<close>: it will not).
\<close>

record world =
  state_file :: "content option"
  tmp_file :: "content option"
  lock_file :: bool
  clock :: int
  unlock_at :: "int option"

record store =
  data :: doc
  lock_timeout_s :: int

datatype error = TimeoutError | OSError | JSONDecodeError

text \<open>
  The file-system failure injected into one call: none, or a failure of the exclusive
  creation of the sentinel (other than "file exists"), of reading the state file, of
  opening the temporary file, of \<open>json.dump\<close> after \<open>n\<close> characters, or of
  \<open>os.replace\<close>. The first failing operation aborts the call, so one fault per call
  is the general case.
\<close>

datatype fault = NoFault | LockFault | ReadFault | TmpOpenFault | DumpFault nat | ReplaceFault

subsection \<open>Operations\<close>

text \<open>\<open>time.sleep(0.1)\<close>: one poll interval passes; the other process may release.\<close>

definition sleep :: "world \<Rightarrow> world" where
  "sleep w =
     (let w' = w\<lparr>clock := clock w + 1\<rparr>
      in if unlock_at w' = Some (clock w') then w'\<lparr>lock_file := False, unlock_at := None\<rparr>
         else w')"

text \<open>
  The loop of \<open>_acquire_lock\<close>: \<open>os.open(lock_path, O_CREAT | O_EXCL | O_WRONLY)\<close>
  succeeds iff the sentinel does not exist; on \<open>FileExistsError\<close> the elapsed time is
  compared with the timeout (seconds, so ten poll intervals each) before sleeping.
\<close>

function acquire_loop :: "fault \<Rightarrow> int \<Rightarrow> int \<Rightarrow> world \<Rightarrow> (error + unit) \<times> world" where
  "acquire_loop f tmo start w =
     (if f = LockFault then (Inl OSError, w)
      else if \<not> lock_file w then (Inr (), w\<lparr>lock_file := True\<rparr>)
      else if clock w - start > 10 * tmo then (Inl TimeoutError, w)
      else acquire_loop f tmo start (sleep w))"
  by pat_completeness auto
termination
  by (relation "measure (\<lambda>(f, tmo, start, w). nat (start + 10 * tmo + 1 - clock w))")
     (auto simp: sleep_def Let_def)

definition StateStore_acquire_lock :: "fault \<Rightarrow> store \<Rightarrow> world \<Rightarrow> (error + unit) \<times> world" where
  "StateStore_acquire_lock f st w = acquire_loop f (lock_timeout_s st) (clock w) w"

text \<open>\<open>unlink(missing_ok=True)\<close>; the source discards any exception it raises.\<close>

definition StateStore_release_lock :: "world \<Rightarrow> world" where
  "StateStore_release_lock w = w\<lparr>lock_file := False\<rparr>"

definition StateStore_read :: "fault \<Rightarrow> world \<Rightarrow> error + doc" where
  "StateStore_read f w =
     (if f = ReadFault then Inl OSError
      else case state_file w of
             None \<Rightarrow> Inl OSError
           | Some (Partial d n) \<Rightarrow> Inl JSONDecodeError
           | Some (Complete d) \<Rightarrow> Inr d)"

text \<open>
  \<open>_write\<close>: open the temporary file for writing (truncating it), dump the document,
  then \<open>os.replace(tmp, path)\<close>, which moves the temporary file over the state file in
  one step.
\<close>

definition StateStore_write :: "fault \<Rightarrow> doc \<Rightarrow> world \<Rightarrow> (error + unit) \<times> world" where
  "StateStore_write f d w =
     (case f of
        TmpOpenFault \<Rightarrow> (Inl OSError, w)
      | DumpFault n \<Rightarrow> (Inl OSError, w\<lparr>tmp_file := Some (Partial d n)\<rparr>)
      | ReplaceFault \<Rightarrow> (Inl OSError, w\<lparr>tmp_file := Some (Complete d)\<rparr>)
      | _ \<Rightarrow> (Inr (), w\<lparr>state_file := Some (Complete d), tmp_file := None\<rparr>))"

definition get_seen :: "doc \<Rightarrow> ustr list" where
  "get_seen d = (case seen d of None \<Rightarrow> [] | Some l \<Rightarrow> l)"

definition StateStore_is_seen :: "store \<Rightarrow> ustr \<Rightarrow> bool" where
  "StateStore_is_seen st identity_key \<longleftrightarrow> identity_key \<in> set (get_seen (data st))"

text \<open>\<open>__init__\<close>: create the document when the path does not exist, then read it.\<close>

definition StateStore_init :: "fault \<Rightarrow> int \<Rightarrow> world \<Rightarrow> (error + store) \<times> world" where
  "StateStore_init f timeout w =
     (case (if state_file w = None
            then StateStore_write f \<lparr>version = Some 1, seen = Some []\<rparr> w
            else (Inr (), w)) of
        (Inl e, w1) \<Rightarrow> (Inl e, w1)
      | (Inr _, w1) \<Rightarrow>
          (case StateStore_read f w1 of
             Inl e \<Rightarrow> (Inl e, w1)
           | Inr d \<Rightarrow> (Inr \<lparr>data = d, lock_timeout_s = timeout\<rparr>, w1)))"

text \<open>The loop \<open>for k in keys: if k not in seen: seen.add(k); changed = True\<close>.\<close>

fun add_loop :: "ustr list \<Rightarrow> ustr set \<times> bool \<Rightarrow> ustr set \<times> bool" where
  "add_loop [] sc = sc"
| "add_loop (k # ks) (s, changed) =
     (if k \<notin> s then add_loop ks (insert k s, True) else add_loop ks (s, changed))"

text \<open>The body of the \<open>try\<close> block of \<open>add_many\<close>, run while the lock is held.\<close>

definition add_many_locked ::
  "fault \<Rightarrow> ustr list \<Rightarrow> store \<Rightarrow> world \<Rightarrow> (error + unit) \<times> store \<times> world" where
  "add_many_locked f keys st w =
     (case StateStore_read f w of
        Inl e \<Rightarrow> (Inl e, st, w)
      | Inr d \<Rightarrow>
          (case add_loop keys (set (get_seen d), False) of
             (s, changed) \<Rightarrow>
               if changed then
                 (let d' = d\<lparr>version := Some 1, seen := Some (sorted_list_of_set s)\<rparr>
                  in case StateStore_write f d' w of
                       (Inl e, w') \<Rightarrow> (Inl e, st, w')
                     | (Inr _, w') \<Rightarrow> (Inr (), st\<lparr>data := d'\<rparr>, w'))
               else (Inr (), st, w)))"

definition StateStore_add_many ::
  "fault \<Rightarrow> ustr list \<Rightarrow> store \<Rightarrow> world \<Rightarrow> (error + unit) \<times> store \<times> world" where
  "StateStore_add_many f keys0 st w =
     (let keys = filter (\<lambda>k. k \<noteq> []) keys0
      in if keys = [] then (Inr (), st, w)
         else case StateStore_acquire_lock f st w of
                (Inl e, w1) \<Rightarrow> (Inl e, st, w1)
              | (Inr _, w1) \<Rightarrow>
                  (case add_many_locked f keys st w1 of
                     (r, st2, w2) \<Rightarrow> (r, st2, StateStore_release_lock w2)))"

text \<open>
  A caller's history: a store opened on a world, then any number of \<open>add_many\<close> calls,
  each with its own batch of keys and its own fault; a call that raises leaves the
  store and the world as the exception found them.
\<close>

fun run_calls :: "(fault \<times> ustr list) list \<Rightarrow> store \<times> world \<Rightarrow> store \<times> world" where
  "run_calls [] sw = sw"
| "run_calls ((f, keys) # cs) (st, w) =
     run_calls cs (snd (StateStore_add_many f keys st w))"

subsection \<open>Notions used to state the properties of the store\<close>

text \<open>The keys \<open>add_many\<close> keeps: \<open>[k for k in keys if k]\<close>.\<close>

definition live :: "ustr list \<Rightarrow> ustr list" where
  "live keys = filter (\<lambda>k. k \<noteq> []) keys"

text \<open>The new complete document: the old one with the kept keys merged in.\<close>

definition merged :: "doc \<Rightarrow> ustr list \<Rightarrow> doc" where
  "merged d keys =
     d\<lparr>version := Some 1,
       seen := Some (sorted_list_of_set (set (get_seen d) \<union> set (live keys)))\<rparr>"

definition seen_ok :: "ustr list \<Rightarrow> bool" where
  "seen_ok l \<longleftrightarrow> sorted l \<and> distinct l \<and> [] \<notin> set l"

definition persisted_ok :: "world \<Rightarrow> bool" where
  "persisted_ok w =
     (case state_file w of
        Some (Complete d) \<Rightarrow> (case seen d of Some l \<Rightarrow> seen_ok l | None \<Rightarrow> False)
      | _ \<Rightarrow> False)"

text \<open>Concrete worlds and stores for the examples.\<close>

definition d_empty :: doc where
  "d_empty = \<lparr>version = Some 1, seen = Some []\<rparr>"

definition w_fresh :: world where
  "w_fresh = \<lparr>state_file = None, tmp_file = None, lock_file = False, clock = 0,
     unlock_at = None\<rparr>"

definition w_empty :: world where
  "w_empty = \<lparr>state_file = Some (Complete d_empty), tmp_file = None, lock_file = False,
     clock = 0, unlock_at = None\<rparr>"


definition st_empty :: store where
  "st_empty = \<lparr>data = d_empty, lock_timeout_s = 10\<rparr>"


subsection \<open>Lemmas about the store\<close>

lemma add_loop_eq: "add_loop ks (s, c) = (s \<union> set ks, c \<or> \<not> set ks \<subseteq> s)"
  by (induction ks arbitrary: s c) auto

lemma sleep_files [simp]:
  "state_file (sleep w) = state_file w" "tmp_file (sleep w) = tmp_file w"
  "clock (sleep w) = clock w + 1"
  by (simp_all add: sleep_def Let_def)

lemma sleep_pow_files [simp]:
  "state_file ((sleep ^^ n) w) = state_file w" "tmp_file ((sleep ^^ n) w) = tmp_file w"
  "clock ((sleep ^^ n) w) = clock w + int n"
  by (induction n) simp_all

text \<open>
  The loop polls \<open>n\<close> times in vain, one sleep apart, and at poll \<open>n\<close> either creates
  the sentinel (it is absent) or gives up (it is present and the time is up).
\<close>

lemma acquire_loop_char:
  "f \<noteq> LockFault \<Longrightarrow>
   \<exists>n. (\<forall>m<n. lock_file ((sleep ^^ m) w)) \<and>
       (acquire_loop f tmo start w =
          (if lock_file ((sleep ^^ n) w) then (Inl TimeoutError, (sleep ^^ n) w)
           else (Inr (), ((sleep ^^ n) w)\<lparr>lock_file := True\<rparr>))) \<and>
       (lock_file ((sleep ^^ n) w) \<longrightarrow> clock w + int n - start > 10 * tmo) \<and>
       (\<forall>m<n. clock w + int m - start \<le> 10 * tmo)"
proof (induction f tmo start w rule: acquire_loop.induct)
  case (1 f tmo start w)
  show ?case
  proof (cases "lock_file w")
    case False
    then show ?thesis using 1(2) by (intro exI[of _ 0]) simp
  next
    case True
    show ?thesis
    proof (cases "clock w - start > 10 * tmo")
      case True
      with \<open>lock_file w\<close> show ?thesis using 1(2) by (intro exI[of _ 0]) simp
    next
      case False
      from 1(1)[OF 1(2) _ False] True 1(2)
      obtain n where n: "\<forall>m<n. lock_file ((sleep ^^ m) (sleep w))"
        "acquire_loop f tmo start (sleep w) =
          (if lock_file ((sleep ^^ n) (sleep w)) then (Inl TimeoutError, (sleep ^^ n) (sleep w))
           else (Inr (), ((sleep ^^ n) (sleep w))\<lparr>lock_file := True\<rparr>))"
        "lock_file ((sleep ^^ n) (sleep w)) \<longrightarrow> clock (sleep w) + int n - start > 10 * tmo"
        "\<forall>m<n. clock (sleep w) + int m - start \<le> 10 * tmo"
        by auto
      have a: "acquire_loop f tmo start w = acquire_loop f tmo start (sleep w)"
        using True False 1(2) by simp
      have b: "\<And>k. (sleep ^^ k) (sleep w) = (sleep ^^ Suc k) w"
        by (simp add: funpow_swap1)
      show ?thesis
      proof (intro exI[of _ "Suc n"] conjI)
        show "\<forall>m<Suc n. lock_file ((sleep ^^ m) w)"
        proof (intro allI impI)
          fix m assume "m < Suc n"
          show "lock_file ((sleep ^^ m) w)"
          proof (cases m)
            case 0 then show ?thesis using True by simp
          next
            case (Suc k)
            then have "k < n" using \<open>m < Suc n\<close> by simp
            then show ?thesis using n(1) b Suc by metis
          qed
        qed
        show "acquire_loop f tmo start w =
          (if lock_file ((sleep ^^ Suc n) w) then (Inl TimeoutError, (sleep ^^ Suc n) w)
           else (Inr (), ((sleep ^^ Suc n) w)\<lparr>lock_file := True\<rparr>))"
          using a n(2) b by metis
        show "lock_file ((sleep ^^ Suc n) w) \<longrightarrow> 10 * tmo < clock w + int (Suc n) - start"
          using n(3) b[of n] by (auto simp del: funpow.simps simp: algebra_simps)
        show "\<forall>m<Suc n. clock w + int m - start \<le> 10 * tmo"
        proof (intro allI impI)
          fix m assume "m < Suc n"
          show "clock w + int m - start \<le> 10 * tmo"
          proof (cases m)
            case 0 then show ?thesis using False by simp
          next
            case (Suc k)
            then have "k < n" using \<open>m < Suc n\<close> by simp
            then show ?thesis using n(4) Suc by auto
          qed
        qed
      qed
    qed
  qed
qed

lemma acquire_lock_char:
  assumes "f \<noteq> LockFault"
  shows "\<exists>n. (\<forall>m<n. lock_file ((sleep ^^ m) w) \<and> int m \<le> 10 * lock_timeout_s st) \<and>
       (if lock_file ((sleep ^^ n) w)
        then 10 * lock_timeout_s st < int n \<and>
             StateStore_acquire_lock f st w = (Inl TimeoutError, (sleep ^^ n) w)
        else StateStore_acquire_lock f st w = (Inr (), ((sleep ^^ n) w)\<lparr>lock_file := True\<rparr>))"
proof -
  from acquire_loop_char[OF assms, of w "lock_timeout_s st" "clock w"]
  obtain n where n: "\<forall>m<n. lock_file ((sleep ^^ m) w)"
     "acquire_loop f (lock_timeout_s st) (clock w) w =
          (if lock_file ((sleep ^^ n) w) then (Inl TimeoutError, (sleep ^^ n) w)
           else (Inr (), ((sleep ^^ n) w)\<lparr>lock_file := True\<rparr>))"
     "lock_file ((sleep ^^ n) w) \<longrightarrow> clock w + int n - clock w > 10 * lock_timeout_s st"
     "\<forall>m<n. clock w + int m - clock w \<le> 10 * lock_timeout_s st"
    by blast
  show ?thesis
    by (rule exI[of _ n]) (use n in \<open>auto simp: StateStore_acquire_lock_def\<close>)
qed

lemma acquire_lock_free:
  "f \<noteq> LockFault \<Longrightarrow> \<not> lock_file w \<Longrightarrow>
   StateStore_acquire_lock f st w = (Inr (), w\<lparr>lock_file := True\<rparr>)"
  by (simp add: StateStore_acquire_lock_def)

lemma acquire_lock_fault:
  "StateStore_acquire_lock LockFault st w = (Inl OSError, w)"
  by (simp add: StateStore_acquire_lock_def)

lemma acquire_lock_files:
  assumes a: "StateStore_acquire_lock f st w = (r, w1)"
  shows "state_file w1 = state_file w \<and> tmp_file w1 = tmp_file w"
proof (cases "f = LockFault")
  case True
  then show ?thesis using a by (simp add: acquire_lock_fault)
next
  case False
  from acquire_lock_char[OF False, of w st] obtain n where
    "if lock_file ((sleep ^^ n) w)
        then 10 * lock_timeout_s st < int n \<and>
             StateStore_acquire_lock f st w = (Inl TimeoutError, (sleep ^^ n) w)
        else StateStore_acquire_lock f st w = (Inr (), ((sleep ^^ n) w)\<lparr>lock_file := True\<rparr>)"
    by blast
  with a show ?thesis by (auto split: if_splits)
qed

lemma write_state_file:
  "StateStore_write f d w = (r, w') \<Longrightarrow>
   (r = Inr () \<and> state_file w' = Some (Complete d) \<and>
      f \<notin> {TmpOpenFault, ReplaceFault} \<union> range DumpFault) \<or>
   (r = Inl OSError \<and> state_file w' = state_file w \<and>
      f \<in> {TmpOpenFault, ReplaceFault} \<union> range DumpFault)"
  by (cases f) (auto simp: StateStore_write_def)

lemma write_lock_file:
  "StateStore_write f d w = (r, w') \<Longrightarrow> lock_file w' = lock_file w"
  by (cases f) (auto simp: StateStore_write_def)

lemma live_set: "set (live keys) = {k \<in> set keys. k \<noteq> []}" "[] \<notin> set (live keys)"
  by (auto simp: live_def)

lemma live_id: "[] \<notin> set keys \<Longrightarrow> live keys = keys"
  by (induction keys) (auto simp: live_def)

lemma merged_live: "merged d (live keys) = merged d keys"
  by (simp add: merged_def live_id live_set(2))

lemma locked_char:
  assumes "add_many_locked f keys st w = (r, st', w')" and "[] \<notin> set keys"
  shows "lock_file w' = lock_file w"
    and "(\<exists>e. r = Inl e) \<and> st' = st \<and> state_file w' = state_file w \<or>
         r = Inr () \<and> st' = st \<and> w' = w \<and>
            (\<exists>d. state_file w = Some (Complete d) \<and> set keys \<subseteq> set (get_seen d)) \<or>
         r = Inr () \<and> (\<exists>d. state_file w = Some (Complete d) \<and> \<not> set keys \<subseteq> set (get_seen d) \<and>
            st' = st\<lparr>data := merged d keys\<rparr> \<and> state_file w' = Some (Complete (merged d keys)))"
proof -
  show "lock_file w' = lock_file w"
    using assms(1)
    by (auto simp: add_many_locked_def add_loop_eq Let_def
        split: sum.splits if_splits prod.splits dest: write_lock_file)
  show "(\<exists>e. r = Inl e) \<and> st' = st \<and> state_file w' = state_file w \<or>
         r = Inr () \<and> st' = st \<and> w' = w \<and>
            (\<exists>d. state_file w = Some (Complete d) \<and> set keys \<subseteq> set (get_seen d)) \<or>
         r = Inr () \<and> (\<exists>d. state_file w = Some (Complete d) \<and> \<not> set keys \<subseteq> set (get_seen d) \<and>
            st' = st\<lparr>data := merged d keys\<rparr> \<and> state_file w' = Some (Complete (merged d keys)))"
    using assms(1)
    apply (simp add: add_many_locked_def add_loop_eq Let_def merged_def live_id[OF assms(2)]
        split: sum.splits if_splits prod.splits)
    apply (auto simp: StateStore_read_def split: if_splits option.splits content.splits
        dest!: write_state_file)
    done
qed

lemma add_many_unfold:
  "StateStore_add_many f keys st w =
     (if live keys = [] then (Inr (), st, w)
      else case StateStore_acquire_lock f st w of
             (Inl e, w1) \<Rightarrow> (Inl e, st, w1)
           | (Inr _, w1) \<Rightarrow>
               (case add_many_locked f (live keys) st w1 of
                  (r, st2, w2) \<Rightarrow> (r, st2, StateStore_release_lock w2)))"
  unfolding StateStore_add_many_def live_def Let_def by (rule refl)

lemma add_many_char:
  assumes "StateStore_add_many f keys st w = (r, st', w')"
  shows "(\<exists>e. r = Inl e) \<and> st' = st \<and> state_file w' = state_file w \<or>
         r = Inr () \<and> st' = st \<and> state_file w' = state_file w \<and>
            (live keys = [] \<and> w' = w \<or> \<not> lock_file w' \<and>
              (\<exists>d. state_file w = Some (Complete d) \<and> set (live keys) \<subseteq> set (get_seen d))) \<or>
         r = Inr () \<and> \<not> lock_file w' \<and> (\<exists>d. state_file w = Some (Complete d) \<and>
            \<not> set (live keys) \<subseteq> set (get_seen d) \<and>
            st' = st\<lparr>data := merged d keys\<rparr> \<and> state_file w' = Some (Complete (merged d keys)))"
proof (cases "live keys = []")
  case True
  then show ?thesis using assms by (auto simp: add_many_unfold)
next
  case False
  obtain ra w1 where acq: "StateStore_acquire_lock f st w = (ra, w1)" by fastforce
  note files = acquire_lock_files[OF acq]
  show ?thesis
  proof (cases ra)
    case (Inl e)
    then show ?thesis using assms False acq files by (auto simp: add_many_unfold)
  next
    case (Inr u)
    obtain r2 st2 w2 where lk: "add_many_locked f (live keys) st w1 = (r2, st2, w2)"
      by (metis prod_cases3)
    have res: "r = r2" "st' = st2" "w' = StateStore_release_lock w2"
      using assms False acq Inr lk by (auto simp: add_many_unfold)
    have rel: "\<not> lock_file w'" "state_file w' = state_file w2"
      using res by (simp_all add: StateStore_release_lock_def)
    from locked_char(2)[OF lk live_set(2)] files rel res
    show ?thesis by (auto simp: merged_live)
  qed
qed



lemma merged_seen_ok:
  assumes "seen_ok (get_seen d)"
  shows "seen_ok (get_seen (merged d keys))"
proof -
  have "get_seen (merged d keys) = sorted_list_of_set (set (get_seen d) \<union> set (live keys))"
    by (simp add: merged_def get_seen_def[of "_\<lparr>version := _, seen := _\<rparr>"])
  moreover have "[] \<notin> set (get_seen d) \<union> set (live keys)"
    using assms by (simp add: seen_ok_def live_set)
  ultimately show ?thesis by (simp add: seen_ok_def)
qed

lemma persisted_ok_iff:
  "persisted_ok w \<longleftrightarrow> (\<exists>d l. state_file w = Some (Complete d) \<and> seen d = Some l \<and> seen_ok l)"
  by (auto simp: persisted_ok_def split: option.splits content.splits)

lemma add_many_persisted_ok:
  assumes "persisted_ok w" and "StateStore_add_many f keys st w = (r, st', w')"
  shows "persisted_ok w'"
proof -
  from assms(1) obtain d l where d: "state_file w = Some (Complete d)" "seen d = Some l" "seen_ok l"
    by (auto simp: persisted_ok_iff)
  then have ok: "seen_ok (get_seen d)" by (simp add: get_seen_def)
  from add_many_char[OF assms(2)]
  have "state_file w' = state_file w \<or> state_file w' = Some (Complete (merged d keys))"
    using d(1) by auto
  then show ?thesis
  proof
    assume "state_file w' = state_file w"
    then show ?thesis using assms(1) by (simp add: persisted_ok_def)
  next
    assume m: "state_file w' = Some (Complete (merged d keys))"
    have "seen (merged d keys) = Some (get_seen (merged d keys))"
      by (simp add: merged_def get_seen_def[of "_\<lparr>version := _, seen := _\<rparr>"])
    then show ?thesis using merged_seen_ok[OF ok, of keys] m by (auto simp: persisted_ok_iff)
  qed
qed

lemma run_calls_persisted_ok:
  "persisted_ok w \<Longrightarrow> persisted_ok (snd (run_calls cs (st, w)))"
proof (induction cs arbitrary: st w)
  case Nil
  then show ?case by simp
next
  case (Cons c cs)
  obtain f keys where c: "c = (f, keys)" by (cases c)
  obtain r st' w' where a: "StateStore_add_many f keys st w = (r, st', w')"
    by (metis prod_cases3)
  from add_many_persisted_ok[OF Cons.prems a] have "persisted_ok w'" .
  from Cons.IH[OF this, of st'] show ?case by (simp add: c a)
qed

lemma init_fresh:
  assumes "state_file w0 = None" and "StateStore_init f timeout w0 = (Inr st, w)"
  shows "state_file w = Some (Complete \<lparr>version = Some 1, seen = Some []\<rparr>)"
    and "data st = \<lparr>version = Some 1, seen = Some []\<rparr>"
  using assms
  by (cases f; auto simp: StateStore_init_def StateStore_write_def StateStore_read_def
      split: prod.splits sum.splits if_splits)+

lemma init_w_fresh: "StateStore_init NoFault 10 w_fresh = (Inr st_empty, w_empty)"
  by (simp add: StateStore_init_def StateStore_write_def StateStore_read_def w_fresh_def
      w_empty_def st_empty_def d_empty_def)

subsection \<open>Properties of the store\<close>

text \<open>
  Claim C2. If reading or writing the durable state file fails during \<open>add_many\<close>, the
  call fails, the in-memory snapshot is left as it was, and the state file afterwards
  holds either the old document or the new complete document, never a half-written
  one. For every fault, batch, store and world: when the call raises, the snapshot and
  the state file are unchanged; in every case the state file is what it was or the
  complete merged document; a read fault that is reached raises; and a fault of the
  write (opening the temporary file, dumping, renaming) that is reached, which is when
  some kept key is new, raises.
\<close>

theorem add_many_failure_atomic:
  "case StateStore_add_many f keys st w of
     (r, st', w') \<Rightarrow>
       (\<forall>e. r = Inl e \<longrightarrow> st' = st \<and> state_file w' = state_file w) \<and>
       (state_file w' = state_file w \<or>
        (\<exists>d. state_file w = Some (Complete d) \<and> state_file w' = Some (Complete (merged d keys)))) \<and>
       (live keys \<noteq> [] \<and> \<not> lock_file w \<and> f = ReadFault \<longrightarrow> r = Inl OSError) \<and>
       (live keys \<noteq> [] \<and> \<not> lock_file w \<and> f \<in> {TmpOpenFault, ReplaceFault} \<union> range DumpFault \<and>
        (\<exists>d. state_file w = Some (Complete d) \<and> \<not> set (live keys) \<subseteq> set (get_seen d))
        \<longrightarrow> r = Inl OSError)"
proof -
  obtain r st' w' where a: "StateStore_add_many f keys st w = (r, st', w')"
    by (metis prod_cases3)
  have 1: "\<forall>e. r = Inl e \<longrightarrow> st' = st \<and> state_file w' = state_file w"
    using add_many_char[OF a] by auto
  have 2: "state_file w' = state_file w \<or>
        (\<exists>d. state_file w = Some (Complete d) \<and> state_file w' = Some (Complete (merged d keys)))"
    using add_many_char[OF a] by auto
  have 3: "r = Inl OSError" if "live keys \<noteq> []" "\<not> lock_file w" "f = ReadFault"
    using a that
    by (simp add: add_many_unfold acquire_lock_free add_many_locked_def StateStore_read_def)
  have 4: "r = Inl OSError"
    if "live keys \<noteq> []" "\<not> lock_file w" "f \<in> {TmpOpenFault, ReplaceFault} \<union> range DumpFault"
       "state_file w = Some (Complete d)" "\<not> set (live keys) \<subseteq> set (get_seen d)" for d
  proof -
    have nf: "f \<noteq> LockFault" "f \<noteq> ReadFault" using that(3) by auto
    show ?thesis
      using a that nf
      by (auto simp: add_many_unfold acquire_lock_free add_many_locked_def StateStore_read_def
          add_loop_eq Let_def StateStore_write_def split: prod.splits)
  qed
  show ?thesis unfolding a using 1 2 3 4 by (simp; blast)
qed

theorem add_many_failure_atomic_witness:
  "StateStore_add_many (DumpFault 3) [[97]] st_empty w_empty =
     (Inl OSError, st_empty,
      w_empty\<lparr>tmp_file := Some (Partial (merged d_empty [[97]]) 3)\<rparr>) \<and>
   state_file (w_empty\<lparr>tmp_file := Some (Partial (merged d_empty [[97]]) 3)\<rparr>) =
     Some (Complete d_empty)"
  using add_many_failure_atomic[where f = "DumpFault 3" and keys = "[[97]]" and st = st_empty
      and w = w_empty]
  by (simp add: add_many_unfold live_def acquire_lock_free add_many_locked_def
      StateStore_read_def StateStore_write_def StateStore_release_lock_def add_loop_eq merged_def
      w_empty_def st_empty_def d_empty_def get_seen_def)





text \<open>
  Claim C10. The persisted seen list is sorted, free of duplicates and free of the
  empty string after store creation and after every \<open>add_many\<close> call: a store opened
  where no state file exists writes the document with the empty list, and after any
  history of \<open>add_many\<close> calls on it, with any batches and any faults, the state file
  holds a complete document whose seen list has the three properties.
\<close>

theorem seen_list_invariant:
  assumes "state_file w0 = None" and "StateStore_init f timeout w0 = (Inr st, w)"
  shows "state_file w = Some (Complete \<lparr>version = Some 1, seen = Some []\<rparr>) \<and>
         persisted_ok w \<and> persisted_ok (snd (run_calls cs (st, w)))"
proof -
  note fresh = init_fresh(1)[OF assms]
  then have "persisted_ok w" by (simp add: persisted_ok_def seen_ok_def)
  then show ?thesis using fresh run_calls_persisted_ok by blast
qed

theorem seen_list_invariant_witness:
  "state_file w_fresh = None \<and> StateStore_init NoFault 10 w_fresh = (Inr st_empty, w_empty) \<and>
   persisted_ok (snd (run_calls [(NoFault, [[98], [], [97], [98]]), (DumpFault 3, [[99]])]
      (st_empty, w_empty)))"
  using seen_list_invariant[where ?w0.0 = w_fresh and f = NoFault and timeout = 10
      and st = st_empty and w = w_empty
      and cs = "[(NoFault, [[98], [], [97], [98]]), (DumpFault 3, [[99]])]"] init_w_fresh
  by (simp add: w_fresh_def)

end
